theory Spec2Isabelle
  imports Main "HOL-Library.Multiset"
begin

section \<open>Faults\<close>

text \<open>
  The Go runtime panics on an index out of range and on a nil pointer dereference.
  Functions of the source that can reach such a panic return \<open>fault + 'a\<close>, with
  \<open>Inl\<close> for the panic.
\<close>

datatype fault = IndexOutOfRange | NilDereference

section \<open>Message codec (irc/message.go)\<close>

text \<open>
  A Go \<open>string\<close> is a sequence of bytes and \<open>len\<close> counts bytes; a HOL \<open>string\<close>
  is a list of 8-bit characters. A nil slice and an empty slice are both the empty list.
\<close>

record message =
  prefix :: string
  command :: string
  params :: "string list"
  trailing :: string

definition withParams :: "message \<Rightarrow> string list \<Rightarrow> message" where
  "withParams m ps = m\<lparr>params := ps\<rparr>"

definition withTrailing :: "message \<Rightarrow> string \<Rightarrow> message" where
  "withTrailing m t = m\<lparr>trailing := t\<rparr>"

definition withPrefix :: "message \<Rightarrow> string \<Rightarrow> message" where
  "withPrefix m p = m\<lparr>prefix := p\<rparr>"

text \<open>
  \<open>laxTrailing\<close>: \<open>minIndex\<close> is a Go \<open>int\<close>; it is only compared with the length, so
  no arithmetic on it can overflow. \<open>m.params[l-1]\<close> panics when \<open>l = 0\<close>, which the
  guard \<open>l <= minIndex\<close> lets through for a negative \<open>minIndex\<close>.
\<close>

definition laxTrailing :: "message \<Rightarrow> int \<Rightarrow> fault + string" where
  "laxTrailing m minIndex =
     (if trailing m \<noteq> [] then Inr (trailing m)
      else let l = length (params m) in
        if int l \<le> minIndex then Inr []
        else if l = 0 then Inl IndexOutOfRange
        else Inr (params m ! (l - 1)))"

text \<open>
  The loop of \<open>toString\<close> over \<open>m.params\<close>: the first parameter that contains a space
  ends the function with failure (\<open>None\<close>); otherwise the parameter is appended to the
  text built so far. \<open>strings.Contains(param, " ")\<close> holds when the byte 0x20 occurs.
\<close>

fun toString_loop :: "string list \<Rightarrow> string \<Rightarrow> string option" where
  "toString_loop [] msg = Some msg"
| "toString_loop (param # rest) msg =
     (if CHR '' '' \<in> set param then None
      else toString_loop rest (msg @ '' '' @ param))"

definition CRLF :: string where
  "CRLF = [CHR 0x0D, CHR 0x0A]"

definition toString :: "message \<Rightarrow> string \<times> bool" where
  "toString m =
     (if command m = [] then ([], False)
      else
        let msg0 = (if 0 < length (prefix m) then '':'' @ prefix m @ '' '' else []);
            msg1 = msg0 @ command m
        in case toString_loop (params m) msg1 of
             None \<Rightarrow> ([], False)
           | Some msg2 \<Rightarrow>
               let msg3 = (if trailing m \<noteq> [] then msg2 @ '' :'' @ trailing m else msg2)
               in (msg3 @ CRLF, True))"

text \<open>The wire form the specification describes for a successful encode.\<close>

definition wire_form :: "message \<Rightarrow> string" where
  "wire_form m =
     (if prefix m = [] then [] else '':'' @ prefix m @ '' '')
     @ command m
     @ concat (map (\<lambda>p. '' '' @ p) (params m))
     @ (if trailing m = [] then [] else '' :'' @ trailing m)
     @ CRLF"

definition has_space :: "string \<Rightarrow> bool" where
  "has_space p = (CHR '' '' \<in> set p)"

definition scenario_D :: message where
  "scenario_D = \<lparr>prefix = ''server.example'', command = ''PRIVMSG'',
                  params = [''#chan''], trailing = ''hello world''\<rparr>"

section \<open>State registry (irc/state.go)\<close>

text \<open>
  Modelled from the spec: \<open>lowercase\<close> is a helper of package irc that is not among the
  sources; the specification only calls its result "the lowercase form" used for
  case-insensitive keys. It is modelled bytewise: the ASCII capital letters (65 to 90)
  are moved to their small letters, every other byte is kept.
\<close>

definition lower_byte :: "char \<Rightarrow> char" where
  "lower_byte c =
     (let n = (of_char c :: nat) in if 65 \<le> n \<and> n \<le> 90 then char_of (n + 32) else c)"

definition lowercase :: "string \<Rightarrow> string" where
  "lowercase s = map lower_byte s"

text \<open>
  Pointers. The registry holds \<open>*user\<close> and \<open>*channel\<close>, and the structs point at each
  other, so the structs live in an explicit store: a reference is an address, the store
  maps every address to a struct, and the next free address is counted up by each
  allocation (\<open>&user{...}\<close>, \<open>&channel{...}\<close>). A Go pointer is \<open>None\<close> for nil and
  \<open>Some r\<close> otherwise.

  The struct declarations of \<open>user\<close> and \<open>channel\<close> are not among the sources; the
  records have the fields the sources read and write. \<open>map[*channel]bool\<close> and
  \<open>map[*user]bool\<close> only ever receive the value \<open>true\<close> under a non-nil key, so they
  are sets of references: \<open>m[k]\<close> is membership, \<open>delete\<close> removes, \<open>len\<close> is the size.
\<close>

type_synonym uref = nat
type_synonym cref = nat
type_synonym connection = nat

record user =
  nick :: string
  username :: string  \<comment> \<open>the field \<open>user\<close> of the struct\<close>
  user_channels :: "cref set"  \<comment> \<open>the field \<open>channels\<close>\<close>
  sink :: "connection option"

record channel =
  name :: string
  channel_users :: "uref set"  \<comment> \<open>the field \<open>users\<close>\<close>

text \<open>
  \<open>stateImpl\<close>: the two directories, followed by the part of the heap their pointers
  lead to (addresses from the counters on are not allocated yet and hold the zero struct
  in \<open>newState\<close>). A directory never stores nil, so \<open>s.users[k] != nil\<close> is
  \<open>users s k \<noteq> None\<close>.
  The immutable \<open>config\<close> field is read by \<open>getConfig\<close> and \<open>logChannelMessage\<close> only
  and is left out.
\<close>

record stateImpl =
  channels :: "string \<rightharpoonup> cref"
  users :: "string \<rightharpoonup> uref"
  channel_heap :: "cref \<Rightarrow> channel"
  user_heap :: "uref \<Rightarrow> user"
  next_channel :: cref
  next_user :: uref

definition newState :: stateImpl where
  "newState = \<lparr>channels = Map.empty, users = Map.empty,
                channel_heap = (\<lambda>_. \<lparr>name = [], channel_users = {}\<rparr>),
                user_heap = (\<lambda>_. \<lparr>nick = [], username = [], user_channels = {}, sink = None\<rparr>),
                next_channel = 0, next_user = 0\<rparr>"

definition isValidNick :: "string \<Rightarrow> bool" where
  "isValidNick nk = (length nk \<le> 9)"

definition getChannel :: "stateImpl \<Rightarrow> string \<Rightarrow> cref option" where
  "getChannel s nm = channels s (lowercase nm)"

definition getUser :: "stateImpl \<Rightarrow> string \<Rightarrow> uref option" where
  "getUser s nk = users s (lowercase nk)"

definition newUser :: "stateImpl \<Rightarrow> string \<Rightarrow> uref option \<times> stateImpl" where
  "newUser s nk =
     (let nickLower = lowercase nk in
      if users s nickLower \<noteq> None then (None, s)
      else if \<not> isValidNick nickLower then (None, s)
      else
        let u = next_user s;
            s1 = s\<lparr>user_heap := (user_heap s)
                     (u := \<lparr>nick = nk, username = [], user_channels = {}, sink = None\<rparr>),
                   next_user := Suc u\<rparr>
        in (Some u, s1\<lparr>users := (users s1)(nickLower \<mapsto> u)\<rparr>))"

text \<open>
  \<open>newChannel\<close> reads \<open>name[0]\<close> after the directory lookup and without a length check:
  on the empty string the index is out of range.
\<close>

definition newChannel :: "stateImpl \<Rightarrow> string \<Rightarrow> fault + (cref option \<times> stateImpl)" where
  "newChannel s nm0 =
     (let nm = lowercase nm0 in
      if channels s nm \<noteq> None then Inr (None, s)
      else if nm = [] then Inl IndexOutOfRange
      else if nm ! 0 \<noteq> CHR ''#'' \<and> nm ! 0 \<noteq> CHR ''&'' then Inr (None, s)
      else
        let c = next_channel s;
            s1 = s\<lparr>channel_heap := (channel_heap s)(c := \<lparr>name = nm, channel_users = {}\<rparr>),
                   next_channel := Suc c\<rparr>
        in Inr (Some c, s1\<lparr>channels := (channels s1)(nm \<mapsto> c)\<rparr>))"

definition recycleChannel :: "stateImpl \<Rightarrow> cref option \<Rightarrow> stateImpl" where
  "recycleChannel s ch =
     (case ch of
        None \<Rightarrow> s
      | Some c \<Rightarrow>
          if channel_users (channel_heap s c) \<noteq> {} then s
          else s\<lparr>channels := (channels s)(name (channel_heap s c) := None)\<rparr>)"

text \<open>
  \<open>joinChannel\<close> dereferences \<open>channel\<close> first; with a nil \<open>user\<close> the lookup
  \<open>channel.users[user]\<close> is false and the panic comes at \<open>user.channels\<close>.
\<close>

definition joinChannel :: "stateImpl \<Rightarrow> cref option \<Rightarrow> uref option \<Rightarrow> fault + stateImpl" where
  "joinChannel s ch us =
     (case ch of
        None \<Rightarrow> Inl NilDereference
      | Some c \<Rightarrow>
          (case us of
             None \<Rightarrow> Inl NilDereference
           | Some u \<Rightarrow>
               if u \<in> channel_users (channel_heap s c) then Inr s
               else
                 let cv = channel_heap s c;
                     s1 = s\<lparr>channel_heap := (channel_heap s)
                              (c := cv\<lparr>channel_users := insert u (channel_users cv)\<rparr>)\<rparr>;
                     uv = user_heap s1 u
                 in Inr (s1\<lparr>user_heap := (user_heap s1)
                              (u := uv\<lparr>user_channels := insert c (user_channels uv)\<rparr>)\<rparr>)))"

text \<open>
  \<open>removeFromChannel\<close>: \<open>delete(user.channels, channel)\<close> dereferences \<open>user\<close>, and
  \<open>channel.users[user]\<close> dereferences \<open>channel\<close>.
\<close>

definition removeFromChannel :: "stateImpl \<Rightarrow> cref option \<Rightarrow> uref option \<Rightarrow> fault + stateImpl" where
  "removeFromChannel s ch us =
     (case us of
        None \<Rightarrow> Inl NilDereference
      | Some u \<Rightarrow>
          (case ch of
             None \<Rightarrow> Inl NilDereference
           | Some c \<Rightarrow>
               let uv = user_heap s u;
                   s1 = s\<lparr>user_heap := (user_heap s)
                            (u := uv\<lparr>user_channels := user_channels uv - {c}\<rparr>)\<rparr>
               in if u \<notin> channel_users (channel_heap s1 c) then Inr s1
                  else
                    let cv = channel_heap s1 c;
                        s2 = s1\<lparr>channel_heap := (channel_heap s1)
                                  (c := cv\<lparr>channel_users := channel_users cv - {u}\<rparr>)\<rparr>
                    in Inr (recycleChannel s2 (Some c))))"

definition partChannel :: "stateImpl \<Rightarrow> cref option \<Rightarrow> uref option \<Rightarrow> string \<Rightarrow> fault + stateImpl" where
  "partChannel s ch us reason = removeFromChannel s ch us"

text \<open>
  Modelled from the spec: \<open>user.forChannels\<close> is not among the sources; \<open>removeUser\<close>
  "parts the user from every currently-joined channel". Go ranges over a map in an
  unspecified order, and the callback deletes only the entry being visited, so every
  channel the user was in is visited once. \<open>partAll\<close> is the loop over a given order of
  visit; \<open>removeUser\<close> visits in ascending order of address, and \<open>removeUser_order\<close>
  below shows that every other order gives the same state.
\<close>

fun partAll :: "stateImpl \<Rightarrow> uref \<Rightarrow> cref list \<Rightarrow> fault + stateImpl" where
  "partAll s u [] = Inr s"
| "partAll s u (c # cs) =
     (case partChannel s (Some c) (Some u) ''QUITing'' of
        Inl e \<Rightarrow> Inl e
      | Inr s1 \<Rightarrow> partAll s1 u cs)"

definition removeUser :: "stateImpl \<Rightarrow> uref option \<Rightarrow> fault + stateImpl" where
  "removeUser s us =
     (case us of
        None \<Rightarrow> Inl NilDereference
      | Some u \<Rightarrow>
          (case partAll s u (sorted_list_of_set (user_channels (user_heap s u))) of
             Inl e \<Rightarrow> Inl e
           | Inr s1 \<Rightarrow>
               let nickLower = lowercase (nick (user_heap s1 u))
               in Inr (s1\<lparr>users := (users s1)(nickLower := None)\<rparr>)))"

section \<open>Handlers of an unregistered connection (irc/handler_fresh.go)\<close>

text \<open>
  Modelled from the spec: the numeric-reply sender (\<open>sendNumeric\<close>, \<open>sendMOTD\<close>), the
  transport (\<open>conn.kill\<close>), the command table (\<open>cmdQuit\<close>, \<open>cmdNick\<close>, \<open>cmdUser\<close>), the
  reply codes and the handlers \<open>nullHandler\<close> and \<open>newUserHandler\<close> are not among the
  sources. The specification treats the sender and the transport as opaque collaborators,
  so a call to one of them is recorded as an effect, in the order of the calls; the
  commands are the protocol words QUIT, NICK and USER; \<open>nullHandler\<close> is the Closed
  state and \<open>newUserHandler\<close> builds the Registered state from the nickname.

  A handler takes the registry from the hand-off channel on entry and puts it back on
  return (\<open>defer\<close>), so a handler is a function from the registry to the next handler,
  the registry and the effects. The recipient of a numeric reply is a connection or a user.
\<close>

datatype numeric = errorNoNicknameGiven | errorNicknameInUse | errorNeedMoreParams

datatype recipient = ToConnection connection | ToUser "uref option"

datatype effect = Kill connection | SendNumeric recipient numeric | SendMOTD "uref option"

datatype handler =
    FreshHandler
  | FreshUserHandler "uref option"  \<comment> \<open>the field \<open>user\<close>\<close>
  | UserHandler string
  | NullHandler

definition cmdQuit_command :: string where
  "cmdQuit_command = ''QUIT''"

definition cmdNick_command :: string where
  "cmdNick_command = ''NICK''"

definition cmdUser_command :: string where
  "cmdUser_command = ''USER''"

definition handleNick :: "stateImpl \<Rightarrow> connection \<Rightarrow> message \<Rightarrow> handler \<times> stateImpl \<times> effect list" where
  "handleNick s conn msg =
     (if length (params msg) < 1
      then (FreshHandler, s, [SendNumeric (ToConnection conn) errorNoNicknameGiven])
      else
        let nk = params msg ! 0 in
        case newUser s nk of
          (None, s1) \<Rightarrow> (FreshHandler, s1, [SendNumeric (ToConnection conn) errorNicknameInUse])
        | (Some u, s1) \<Rightarrow>
            (FreshUserHandler (Some u),
             s1\<lparr>user_heap := (user_heap s1)(u := (user_heap s1 u)\<lparr>sink := Some conn\<rparr>)\<rparr>,
             []))"

definition freshHandler_handle :: "stateImpl \<Rightarrow> connection \<Rightarrow> message \<Rightarrow> handler \<times> stateImpl \<times> effect list" where
  "freshHandler_handle s conn msg =
     (if command msg = cmdQuit_command then (NullHandler, s, [Kill conn])
      else if command msg \<noteq> cmdNick_command then (FreshHandler, s, [])
      else handleNick s conn msg)"

definition freshHandler_closed :: "stateImpl \<Rightarrow> connection \<Rightarrow> stateImpl \<times> effect list" where
  "freshHandler_closed s c = (s, [Kill c])"

text \<open>
  \<open>handleUser\<close> computes \<open>msg.laxTrailing(3)\<close> before it looks at the number of
  parameters; \<open>h.user.user = msg.params[0]\<close> dereferences \<open>h.user\<close>.
\<close>

definition handleUser :: "stateImpl \<Rightarrow> uref option \<Rightarrow> connection \<Rightarrow> message \<Rightarrow> fault + (handler \<times> stateImpl \<times> effect list)" where
  "handleUser s us conn msg =
     (case laxTrailing msg 3 of
        Inl e \<Rightarrow> Inl e
      | Inr tr \<Rightarrow>
          if length (params msg) < 3 \<or> tr = []
          then Inr (FreshUserHandler us, s, [SendNumeric (ToUser us) errorNeedMoreParams])
          else
            (case us of
               None \<Rightarrow> Inl NilDereference
             | Some u \<Rightarrow>
                 let s1 = s\<lparr>user_heap := (user_heap s)
                              (u := (user_heap s u)\<lparr>username := params msg ! 0\<rparr>)\<rparr>
                 in Inr (UserHandler (nick (user_heap s1 u)), s1, [SendMOTD us])))"

definition freshUserHandler_handle :: "stateImpl \<Rightarrow> uref option \<Rightarrow> connection \<Rightarrow> message \<Rightarrow> fault + (handler \<times> stateImpl \<times> effect list)" where
  "freshUserHandler_handle s us conn msg =
     (if command msg = cmdQuit_command
      then (case removeUser s us of
              Inl e \<Rightarrow> Inl e
            | Inr s1 \<Rightarrow> Inr (NullHandler, s1, [Kill conn]))
      else if command msg \<noteq> cmdUser_command then Inr (FreshUserHandler us, s, [])
      else handleUser s us conn msg)"

definition freshUserHandler_closed :: "stateImpl \<Rightarrow> uref option \<Rightarrow> connection \<Rightarrow> fault + (stateImpl \<times> effect list)" where
  "freshUserHandler_closed s us c =
     (case removeUser s us of
        Inl e \<Rightarrow> Inl e
      | Inr s1 \<Rightarrow> Inr (s1, [Kill c]))"

section \<open>Registry states and invariants\<close>

text \<open>
  A pointer handed to the registry is nil or points at a struct that an earlier
  \<open>newChannel\<close> or \<open>newUser\<close> allocated; it may point at a channel that was recycled or
  at a user that was removed since.
\<close>

definition allocated_channel :: "stateImpl \<Rightarrow> cref option \<Rightarrow> bool" where
  "allocated_channel s ch = (case ch of None \<Rightarrow> True | Some c \<Rightarrow> c < next_channel s)"

definition allocated_user :: "stateImpl \<Rightarrow> uref option \<Rightarrow> bool" where
  "allocated_user s us = (case us of None \<Rightarrow> True | Some u \<Rightarrow> u < next_user s)"

text \<open>One call of a registry operation that returns (a call that panics has no next state).\<close>

inductive registry_step :: "stateImpl \<Rightarrow> stateImpl \<Rightarrow> bool" where
  step_newUser: "registry_step s (snd (newUser s nk))"
| step_newChannel: "newChannel s nm = Inr (r, s') \<Longrightarrow> registry_step s s'"
| step_recycleChannel: "allocated_channel s ch \<Longrightarrow> registry_step s (recycleChannel s ch)"
| step_joinChannel:
    "allocated_channel s ch \<Longrightarrow> allocated_user s us \<Longrightarrow> joinChannel s ch us = Inr s'
     \<Longrightarrow> registry_step s s'"
| step_partChannel:
    "allocated_channel s ch \<Longrightarrow> allocated_user s us \<Longrightarrow> partChannel s ch us reason = Inr s'
     \<Longrightarrow> registry_step s s'"
| step_removeFromChannel:
    "allocated_channel s ch \<Longrightarrow> allocated_user s us \<Longrightarrow> removeFromChannel s ch us = Inr s'
     \<Longrightarrow> registry_step s s'"
| step_removeUser: "allocated_user s us \<Longrightarrow> removeUser s us = Inr s' \<Longrightarrow> registry_step s s'"

code_pred registry_step .

text \<open>
  The states of a running server: the new registry, changed by registry operations and by
  the two field writes the handlers make through a user pointer (\<open>user.sink\<close>,
  \<open>user.user\<close>).
\<close>

inductive reachable :: "stateImpl \<Rightarrow> bool" where
  reach_newState: "reachable newState"
| reach_step: "reachable s \<Longrightarrow> registry_step s s' \<Longrightarrow> reachable s'"
| reach_sink:
    "reachable s \<Longrightarrow> u < next_user s
     \<Longrightarrow> reachable (s\<lparr>user_heap := (user_heap s)(u := (user_heap s u)\<lparr>sink := x\<rparr>)\<rparr>)"
| reach_username:
    "reachable s \<Longrightarrow> u < next_user s
     \<Longrightarrow> reachable (s\<lparr>user_heap := (user_heap s)(u := (user_heap s u)\<lparr>username := y\<rparr>)\<rparr>)"

code_pred reachable .

text \<open>Every channel struct carries a lowercase name.\<close>

definition names_lowercase :: "stateImpl \<Rightarrow> bool" where
  "names_lowercase s = (\<forall>c. lowercase (name (channel_heap s c)) = name (channel_heap s c))"

text \<open>A channel in the directory is allocated and is stored under its own name.\<close>

definition directory_keyed :: "stateImpl \<Rightarrow> bool" where
  "directory_keyed s =
     (\<forall>k c. channels s k = Some c \<longrightarrow> name (channel_heap s c) = k \<and> c < next_channel s)"

text \<open>A user is in a channel's member set exactly when the channel is in the user's set.\<close>

definition symmetric :: "stateImpl \<Rightarrow> bool" where
  "symmetric s =
     (\<forall>u c. u \<in> channel_users (channel_heap s c) \<longleftrightarrow> c \<in> user_channels (user_heap s u))"

text \<open>Only allocated structs are linked.\<close>

definition members_allocated :: "stateImpl \<Rightarrow> bool" where
  "members_allocated s =
     (\<forall>u c. u \<in> channel_users (channel_heap s c) \<longrightarrow> u < next_user s \<and> c < next_channel s)"

definition registry_inv :: "stateImpl \<Rightarrow> bool" where
  "registry_inv s =
     (names_lowercase s \<and> directory_keyed s \<and> symmetric s \<and> members_allocated s)"

text \<open>
  From \<open>s\<close> to \<open>s'\<close> nothing was added: the directory and the member sets only lost
  entries, no struct was allocated or renamed, and the name of a channel that lost its
  last member is no longer a key of the directory.
\<close>

definition emptied_gone :: "stateImpl \<Rightarrow> stateImpl \<Rightarrow> bool" where
  "emptied_gone s s' =
     (\<forall>c. channel_users (channel_heap s c) \<noteq> {} \<and> channel_users (channel_heap s' c) = {}
          \<longrightarrow> channels s' (name (channel_heap s' c)) = None)"

definition shrinks :: "stateImpl \<Rightarrow> stateImpl \<Rightarrow> bool" where
  "shrinks s s' =
     ((\<forall>k c. channels s' k = Some c \<longrightarrow> channels s k = Some c)
      \<and> (\<forall>c. channel_users (channel_heap s' c) \<subseteq> channel_users (channel_heap s c))
      \<and> (\<forall>c. name (channel_heap s' c) = name (channel_heap s c))
      \<and> next_channel s' = next_channel s \<and> next_user s' = next_user s
      \<and> emptied_gone s s')"

text \<open>
  One round of the loop of \<open>removeUser\<close> as a function on states: parting with two
  non-nil pointers always returns.
\<close>

definition part_one :: "uref \<Rightarrow> cref \<Rightarrow> stateImpl \<Rightarrow> stateImpl" where
  "part_one u c s = (case partChannel s (Some c) (Some u) ''QUITing'' of Inr s' \<Rightarrow> s' | Inl _ \<Rightarrow> s)"

text \<open>Scenario: alice registers, the channel \<open>#go\<close> is created, alice joins and parts.\<close>

definition registry_alice :: stateImpl where
  "registry_alice = snd (newUser newState ''alice'')"

definition registry_go :: stateImpl where
  "registry_go =
     (case newChannel registry_alice ''#go'' of Inr (_, s) \<Rightarrow> s | Inl _ \<Rightarrow> registry_alice)"

definition registry_joined :: stateImpl where
  "registry_joined =
     (case joinChannel registry_go (Some 0) (Some 0) of Inr s \<Rightarrow> s | Inl _ \<Rightarrow> registry_go)"

definition registry_parted :: stateImpl where
  "registry_parted =
     (case partChannel registry_joined (Some 0) (Some 0) ''bye'' of
        Inr s \<Rightarrow> s | Inl _ \<Rightarrow> registry_joined)"

section \<open>Sample inputs and observations\<close>

text \<open>The struct behind the pointer that \<open>newChannel\<close> returns, when it returns one.\<close>

definition created_channel :: "fault + (cref option \<times> stateImpl) \<Rightarrow> channel option" where
  "created_channel r = (case r of Inr (Some c, s') \<Rightarrow> Some (channel_heap s' c) | _ \<Rightarrow> None)"

definition msg_user_ok :: message where
  "msg_user_ok = \<lparr>prefix = [], command = ''USER'',
                   params = [''alice'', ''0'', ''*''], trailing = ''Alice A''\<rparr>"

definition msg_user_short :: message where
  "msg_user_short = \<lparr>prefix = [], command = ''USER'',
                      params = [''alice'', ''0'', ''*''], trailing = []\<rparr>"

definition msg_nick_empty :: message where
  "msg_nick_empty = \<lparr>prefix = [], command = ''NICK'', params = [[]], trailing = []\<rparr>"

section \<open>Properties of the message codec\<close>

lemma toString_loop_None:
  "toString_loop ps msg = None \<longleftrightarrow> (\<exists>p \<in> set ps. has_space p)"
  by (induction ps arbitrary: msg) (auto simp: has_space_def)

lemma toString_loop_Some:
  "toString_loop ps msg = Some r \<Longrightarrow> r = msg @ concat (map (\<lambda>p. '' '' @ p) ps)"
proof (induction ps arbitrary: msg)
  case Nil
  then show ?case by simp
next
  case (Cons p ps)
  from Cons.prems have "toString_loop ps (msg @ '' '' @ p) = Some r"
    by (simp split: if_splits)
  then have "r = (msg @ '' '' @ p) @ concat (map (\<lambda>p. '' '' @ p) ps)"
    by (rule Cons.IH)
  then show ?case by simp
qed

lemma toString_empty_command: "command m = [] \<Longrightarrow> toString m = ([], False)"
  by (simp add: toString_def)

lemma toString_space:
  assumes "\<exists>p \<in> set (params m). has_space p"
  shows "toString m = ([], False)"
proof -
  have "toString_loop (params m) msg = None" for msg
    using assms toString_loop_None by blast
  then show ?thesis
    by (simp add: toString_def Let_def)
qed

lemma toString_success:
  assumes "command m \<noteq> []" and "\<not> (\<exists>p \<in> set (params m). has_space p)"
  shows "toString m = (wire_form m, True)"
proof -
  define msg1 where "msg1 = (if 0 < length (prefix m) then '':'' @ prefix m @ '' '' else []) @ command m"
  from assms(2) have "toString_loop (params m) msg1 \<noteq> None"
    using toString_loop_None by blast
  then obtain r where r: "toString_loop (params m) msg1 = Some r"
    by blast
  then have "r = msg1 @ concat (map (\<lambda>p. '' '' @ p) (params m))"
    by (rule toString_loop_Some)
  with r assms(1) show ?thesis
    unfolding msg1_def by (simp add: toString_def wire_form_def Let_def)
qed

text \<open>
  C1: encoding fails, with no output and \<open>ok = False\<close>, exactly when the command is empty
  or some middle parameter contains a space; otherwise it returns the wire form: the
  optional prefix as colon, prefix, space, then the command, each middle parameter after
  one space, the non-empty trailing parameter after space and colon, and CRLF. Scenario D
  encodes to \<open>:server.example PRIVMSG #chan :hello world\<close> followed by CRLF.
\<close>

theorem toString_spec:
  "toString m =
     (if command m = [] \<or> (\<exists>p \<in> set (params m). has_space p) then ([], False)
      else (wire_form m, True))
   \<and> toString scenario_D = ('':server.example PRIVMSG #chan :hello world'' @ CRLF, True)"
proof
  show "toString m =
     (if command m = [] \<or> (\<exists>p \<in> set (params m). has_space p) then ([], False)
      else (wire_form m, True))"
  proof (cases "command m = [] \<or> (\<exists>p \<in> set (params m). has_space p)")
    case True
    then have "toString m = ([], False)"
      using toString_empty_command toString_space by blast
    with True show ?thesis by simp
  next
    case False
    then have "toString m = (wire_form m, True)"
      using toString_success by blast
    with False show ?thesis by simp
  qed
next
  show "toString scenario_D = ('':server.example PRIVMSG #chan :hello world'' @ CRLF, True)"
    by (simp add: toString_def scenario_D_def Let_def)
qed

theorem toString_spec_witness:
  "toString \<lparr>prefix = [], command = ''JOIN'', params = [''a b''], trailing = []\<rparr> = ([], False)
   \<and> toString \<lparr>prefix = [], command = ''JOIN'', params = [''#a'', ''k''], trailing = []\<rparr>
       = (''JOIN #a k'' @ CRLF, True)"
  using toString_spec [of "\<lparr>prefix = [], command = ''JOIN'', params = [''a b''], trailing = []\<rparr>"]
    toString_spec [of "\<lparr>prefix = [], command = ''JOIN'', params = [''#a'', ''k''], trailing = []\<rparr>"]
  by (simp add: has_space_def wire_form_def)


section \<open>Properties of laxTrailing\<close>

lemma laxTrailing_cases:
  "laxTrailing m n =
     (if trailing m \<noteq> [] then Inr (trailing m)
      else if n < int (length (params m))
           then (if params m = [] then Inl IndexOutOfRange else Inr (last (params m)))
           else Inr [])"
  by (auto simp: laxTrailing_def Let_def last_conv_nth)

text \<open>
  C6: for every message and every index \<open>n\<close> (a position, so \<open>0 \<le> n\<close>), \<open>laxTrailing\<close>
  returns the trailing parameter when it is set; otherwise the last positional parameter
  when there are more than \<open>n\<close> of them; otherwise the empty string. With four parameters
  and no trailing, \<open>laxTrailing 3\<close> is the fourth parameter; with exactly three it is
  empty.
\<close>

theorem laxTrailing_spec:
  assumes "0 \<le> n"
  shows "laxTrailing m n =
           Inr (if trailing m \<noteq> [] then trailing m
                else if n < int (length (params m)) then last (params m)
                else [])
         \<and> (trailing m = [] \<and> length (params m) = 4 \<longrightarrow> laxTrailing m 3 = Inr (params m ! 3))
         \<and> (trailing m = [] \<and> length (params m) = 3 \<longrightarrow> laxTrailing m 3 = Inr [])"
  using assms by (auto simp: laxTrailing_def Let_def last_conv_nth)

theorem laxTrailing_spec_witness:
  "(0::int) \<le> 3
   \<and> laxTrailing \<lparr>prefix = [], command = ''USER'', params = [''a'', ''0'', ''*'', ''Alice''], trailing = []\<rparr> 3
       = Inr ''Alice''
   \<and> laxTrailing \<lparr>prefix = [], command = ''USER'', params = [''a'', ''0'', ''*''], trailing = []\<rparr> 3
       = Inr []"
  using laxTrailing_spec [of 3 "\<lparr>prefix = [], command = ''USER'', params = [''a'', ''0'', ''*'', ''Alice''], trailing = []\<rparr>"]
    laxTrailing_spec [of 3 "\<lparr>prefix = [], command = ''USER'', params = [''a'', ''0'', ''*''], trailing = []\<rparr>"]
  by simp

section \<open>Properties of lowercase\<close>

lemma lower_byte_idem: "lower_byte (lower_byte c) = lower_byte c"
  by (simp add: lower_byte_def Let_def)

lemma length_lowercase: "length (lowercase s) = length s"
  by (simp add: lowercase_def)

lemma lowercase_idem: "lowercase (lowercase s) = lowercase s"
  by (simp add: lowercase_def lower_byte_idem)

lemma lowercase_Nil: "lowercase [] = []"
  by (simp add: lowercase_def)

lemma lowercase_eq_Nil: "lowercase s = [] \<longleftrightarrow> s = []"
  by (simp add: lowercase_def)

lemma lower_byte_fixed:
  assumes "(of_char d :: nat) < 65"
  shows "lower_byte c = d \<longleftrightarrow> c = d"
proof
  assume "c = d"
  with assms show "lower_byte c = d"
    by (simp add: lower_byte_def Let_def)
next
  assume eq: "lower_byte c = d"
  show "c = d"
  proof (cases "65 \<le> (of_char c :: nat) \<and> (of_char c :: nat) \<le> 90")
    case True
    then have "lower_byte c = char_of (of_char c + 32 :: nat)"
      by (simp add: lower_byte_def Let_def)
    with eq have "(of_char d :: nat) = of_char (char_of (of_char c + 32 :: nat) :: char)"
      by simp
    also have "\<dots> = (of_char c + 32) mod 256"
      by simp
    finally show ?thesis
      using True assms by simp
  next
    case False
    with eq show ?thesis
      by (auto simp: lower_byte_def Let_def)
  qed
qed

lemma lower_byte_hash: "lower_byte c = CHR ''#'' \<longleftrightarrow> c = CHR ''#''"
  by (rule lower_byte_fixed) simp

lemma lower_byte_amp: "lower_byte c = CHR ''&'' \<longleftrightarrow> c = CHR ''&''"
  by (rule lower_byte_fixed) simp

lemma lowercase_first: "nm \<noteq> [] \<Longrightarrow> lowercase nm ! 0 = lower_byte (nm ! 0)"
  by (cases nm) (simp_all add: lowercase_def)

section \<open>Properties of the registry operations\<close>

text \<open>
  C8: \<open>joinChannel\<close> is idempotent: calling it twice with the same channel and user
  gives the registry state (or the panic) that calling it once gives, and a call for a
  user who is already a member returns the state as it was.
\<close>

theorem joinChannel_idempotent:
  "(case joinChannel s ch us of Inl e \<Rightarrow> Inl e | Inr s1 \<Rightarrow> joinChannel s1 ch us) = joinChannel s ch us
   \<and> (\<forall>c u. ch = Some c \<and> us = Some u \<and> u \<in> channel_users (channel_heap s c) \<longrightarrow> joinChannel s ch us = Inr s)"
  by (auto simp: joinChannel_def Let_def split: option.splits)

lemma lowercase_Bob: "lowercase ''Bob'' = ''bob''" by code_simp
lemma lowercase_BOB: "lowercase ''BOB'' = ''bob''" by code_simp
lemma lowercase_Chan: "lowercase ''#Chan'' = ''#chan''" by code_simp

text \<open>
  C2: for a nickname of length at most 9 that is not registered under case-insensitive
  lookup, \<open>newUser\<close> returns a new user with that nickname and an empty membership set,
  stored under the lowercase nickname; a following \<open>newUser\<close> with a nickname of the
  same lowercase form returns nil and changes nothing; and \<open>newUser\<close> returns nil for
  every nickname longer than 9.
\<close>

theorem newUser_spec:
  "(length nk \<le> 9 \<and> getUser s nk = None \<longrightarrow>
      fst (newUser s nk) = Some (next_user s)
      \<and> user_heap (snd (newUser s nk)) (next_user s)
          = \<lparr>nick = nk, username = [], user_channels = {}, sink = None\<rparr>
      \<and> users (snd (newUser s nk)) = (users s)(lowercase nk \<mapsto> next_user s)
      \<and> (\<forall>nk'. lowercase nk' = lowercase nk \<longrightarrow>
             newUser (snd (newUser s nk)) nk' = (None, snd (newUser s nk))))
   \<and> (9 < length nk \<longrightarrow> newUser s nk = (None, s))"
  by (simp add: newUser_def getUser_def isValidNick_def length_lowercase Let_def)

theorem newUser_spec_witness:
  "length ''Bob'' \<le> 9 \<and> getUser newState ''Bob'' = None
   \<and> fst (newUser newState ''Bob'') = Some 0
   \<and> user_heap (snd (newUser newState ''Bob'')) 0
       = \<lparr>nick = ''Bob'', username = [], user_channels = {}, sink = None\<rparr>
   \<and> users (snd (newUser newState ''Bob'')) ''bob'' = Some 0
   \<and> lowercase ''BOB'' = lowercase ''Bob''
   \<and> newUser (snd (newUser newState ''Bob'')) ''BOB'' = (None, snd (newUser newState ''Bob''))
   \<and> 9 < length ''0123456789''
   \<and> newUser newState ''0123456789'' = (None, newState)"
  using newUser_spec [of "''Bob''" newState] newUser_spec [of "''0123456789''" newState]
  by (simp add: getUser_def newState_def lowercase_Bob lowercase_BOB)

text \<open>
  On a name that is not empty \<open>newChannel\<close> tests the first byte of the name: without
  \<open>#\<close> or \<open>&\<close> there it returns nil and the state as it was; with one of them and no
  channel under the lowercase name it returns a new channel, after which the same name in
  any letter case returns nil.
\<close>

lemma lowercase_first_prefix:
  assumes "nm \<noteq> []"
  shows "(lowercase nm ! 0 = CHR ''#'' \<longleftrightarrow> nm ! 0 = CHR ''#'')
         \<and> (lowercase nm ! 0 = CHR ''&'' \<longleftrightarrow> nm ! 0 = CHR ''&'')"
  using assms by (simp add: lowercase_first lower_byte_hash lower_byte_amp)

lemma newChannel_nonempty:
  assumes "nm \<noteq> []"
  shows "(nm ! 0 \<noteq> CHR ''#'' \<and> nm ! 0 \<noteq> CHR ''&'' \<longrightarrow> newChannel s nm = Inr (None, s))
         \<and> ((nm ! 0 = CHR ''#'' \<or> nm ! 0 = CHR ''&'') \<and> getChannel s nm = None \<longrightarrow>
              (\<exists>s'. newChannel s nm = Inr (Some (next_channel s), s')
                    \<and> getChannel s' nm = Some (next_channel s)
                    \<and> (\<forall>nm'. lowercase nm' = lowercase nm \<longrightarrow> newChannel s' nm' = Inr (None, s'))))"
proof -
  from assms have ne: "lowercase nm \<noteq> []"
    by (simp add: lowercase_eq_Nil)
  note p = lowercase_first_prefix [OF assms]
  show ?thesis
    using ne p by (auto simp: newChannel_def getChannel_def Let_def)
qed

text \<open>
  C3, at its failing input: on a registry with no channel keyed by the empty string,
  \<open>newChannel\<close> of the empty name does not return nil; the read of \<open>name[0]\<close> panics.
\<close>

theorem newChannel_empty_name_faults: "newChannel newState [] = Inl IndexOutOfRange"
  by (simp add: newChannel_def newState_def lowercase_def)

text \<open>
  C9 as stated fails: the channel created for \<open>#Chan\<close> is named \<open>#chan\<close>.
\<close>

theorem newChannel_name_counterexample:
  "map_option name (created_channel (newChannel newState ''#Chan'')) = Some ''#chan''
   \<and> map_option name (created_channel (newChannel newState ''#Chan'')) \<noteq> Some ''#Chan''"
  by (simp add: newChannel_def newState_def created_channel_def lowercase_Chan Let_def)

text \<open>
  C9, amended: the channel returned by \<open>newChannel\<close> has the lowercase form of the
  argument as its name (the key it is stored under), and no members.
\<close>

theorem newChannel_name_lowercase:
  "created_channel (newChannel s nm) = Some ch \<Longrightarrow>
     name ch = lowercase nm \<and> channel_users ch = {}
     \<and> (\<exists>c s'. newChannel s nm = Inr (Some c, s') \<and> getChannel s' nm = Some c)"
  by (auto simp: newChannel_def created_channel_def getChannel_def Let_def split: if_splits)

theorem newChannel_name_lowercase_witness:
  "created_channel (newChannel newState ''#Chan'') = Some \<lparr>name = ''#chan'', channel_users = {}\<rparr>
   \<and> name \<lparr>name = ''#chan'', channel_users = {}\<rparr> = lowercase ''#Chan''"
  using newChannel_name_lowercase [of newState "''#Chan''" "\<lparr>name = ''#chan'', channel_users = {}\<rparr>"]
  by (simp add: newChannel_def newState_def created_channel_def lowercase_Chan Let_def)

text \<open>
  C7: in the FreshUser state, a USER message with fewer than 3 parameters, or whose
  \<open>laxTrailing 3\<close> is empty, sends error-need-more-params to the user and returns the
  same handler with the registry unchanged; a USER message with at least 3 parameters and
  a non-empty \<open>laxTrailing 3\<close> stores the first parameter as the user's user-info field,
  sends the MOTD and returns the Registered handler.
\<close>

theorem handleUser_spec:
  assumes "command msg = ''USER''"
  shows "(length (params msg) < 3 \<or> laxTrailing msg 3 = Inr [] \<longrightarrow>
            freshUserHandler_handle s us conn msg
              = Inr (FreshUserHandler us, s, [SendNumeric (ToUser us) errorNeedMoreParams]))
         \<and> (3 \<le> length (params msg) \<and> laxTrailing msg 3 \<noteq> Inr [] \<longrightarrow>
              freshUserHandler_handle s (Some u) conn msg
                = Inr (UserHandler (nick (user_heap s u)),
                       s\<lparr>user_heap := (user_heap s)(u := (user_heap s u)\<lparr>username := params msg ! 0\<rparr>)\<rparr>,
                       [SendMOTD (Some u)]))"
  using assms
  by (auto simp: freshUserHandler_handle_def handleUser_def cmdQuit_command_def cmdUser_command_def
      laxTrailing_def Let_def)

text \<open>
  C10: only the upper bound of the length is checked. On a registry with no user keyed by
  the empty string, \<open>newUser\<close> of the empty nickname returns a new user whose nickname
  and key are the empty string, and the Fresh handler hands an empty first parameter of
  NICK to \<open>newUser\<close>, so the connection moves to FreshUser with the empty nickname.
\<close>

theorem empty_nick_registers:
  assumes "getUser s [] = None"
  shows "isValidNick []
         \<and> fst (newUser s []) = Some (next_user s)
         \<and> nick (user_heap (snd (newUser s [])) (next_user s)) = []
         \<and> users (snd (newUser s [])) [] = Some (next_user s)
         \<and> (command msg = ''NICK'' \<and> params msg = [] # ps \<longrightarrow>
              fst (freshHandler_handle s conn msg) = FreshUserHandler (Some (next_user s))
              \<and> getUser (fst (snd (freshHandler_handle s conn msg))) [] = Some (next_user s)
              \<and> nick (user_heap (fst (snd (freshHandler_handle s conn msg))) (next_user s)) = []
              \<and> snd (snd (freshHandler_handle s conn msg)) = [])"
  using assms
  by (auto simp: freshHandler_handle_def handleNick_def cmdQuit_command_def cmdNick_command_def
      newUser_def getUser_def isValidNick_def lowercase_def Let_def)

section \<open>Witnesses for the handlers\<close>

lemma lowercase_alice: "lowercase ''alice'' = ''alice''" by code_simp

theorem handleUser_spec_witness:
  "command msg_user_ok = ''USER''
   \<and> 3 \<le> length (params msg_user_ok) \<and> laxTrailing msg_user_ok 3 \<noteq> Inr []
   \<and> freshUserHandler_handle (snd (newUser newState ''alice'')) (Some 0) 7 msg_user_ok
       = Inr (UserHandler ''alice'',
              (snd (newUser newState ''alice''))
                \<lparr>user_heap := (user_heap (snd (newUser newState ''alice'')))
                   (0 := \<lparr>nick = ''alice'', username = ''alice'', user_channels = {}, sink = None\<rparr>)\<rparr>,
              [SendMOTD (Some 0)])
   \<and> command msg_user_short = ''USER''
   \<and> laxTrailing msg_user_short 3 = Inr []
   \<and> freshUserHandler_handle (snd (newUser newState ''alice'')) (Some 0) 7 msg_user_short
       = Inr (FreshUserHandler (Some 0), snd (newUser newState ''alice''),
              [SendNumeric (ToUser (Some 0)) errorNeedMoreParams])"
  using handleUser_spec [of msg_user_ok "snd (newUser newState ''alice'')" "Some 0" 7 0]
    handleUser_spec [of msg_user_short "snd (newUser newState ''alice'')" "Some 0" 7 0]
  by (simp add: msg_user_ok_def msg_user_short_def laxTrailing_def newUser_def newState_def
      isValidNick_def lowercase_alice Let_def)

theorem empty_nick_registers_witness:
  "getUser newState [] = None
   \<and> fst (newUser newState []) = Some 0
   \<and> users (snd (newUser newState [])) [] = Some 0
   \<and> command msg_nick_empty = ''NICK'' \<and> params msg_nick_empty = [] # []
   \<and> fst (freshHandler_handle newState 7 msg_nick_empty) = FreshUserHandler (Some 0)
   \<and> getUser (fst (snd (freshHandler_handle newState 7 msg_nick_empty))) [] = Some 0
   \<and> user_heap (fst (snd (freshHandler_handle newState 7 msg_nick_empty))) 0
       = \<lparr>nick = [], username = [], user_channels = {}, sink = Some 7\<rparr>"
  using empty_nick_registers [of newState msg_nick_empty "[]" 7]
  by (simp add: msg_nick_empty_def getUser_def newState_def lowercase_def
      freshHandler_handle_def handleNick_def cmdQuit_command_def cmdNick_command_def
      newUser_def isValidNick_def Let_def)


section \<open>Invariants of the registry\<close>

lemma registry_inv_newState: "registry_inv newState"
  by (simp add: registry_inv_def names_lowercase_def directory_keyed_def symmetric_def
      members_allocated_def newState_def lowercase_def)

lemma newUser_inv:
  assumes "registry_inv s"
  shows "registry_inv (snd (newUser s nk))"
proof -
  have "names_lowercase (snd (newUser s nk))"
    using assms by (simp add: registry_inv_def names_lowercase_def newUser_def Let_def)
  moreover have "directory_keyed (snd (newUser s nk))"
    using assms by (simp add: registry_inv_def directory_keyed_def newUser_def Let_def)
  moreover have "members_allocated (snd (newUser s nk))"
    using assms by (auto simp: registry_inv_def members_allocated_def newUser_def Let_def
        dest: less_SucI)
  moreover have "symmetric (snd (newUser s nk))"
    using assms by (auto simp: registry_inv_def symmetric_def members_allocated_def newUser_def Let_def)
  ultimately show ?thesis
    by (simp add: registry_inv_def)
qed

lemma newChannel_inv:
  assumes "registry_inv s" and "newChannel s nm = Inr (r, s')"
  shows "registry_inv s'"
proof -
  have "names_lowercase s'"
    using assms by (auto simp: registry_inv_def names_lowercase_def newChannel_def Let_def
        lowercase_idem split: if_splits)
  moreover have "directory_keyed s'"
    using assms by (fastforce simp: registry_inv_def directory_keyed_def newChannel_def Let_def
        split: if_splits)
  moreover have "members_allocated s'"
    using assms by (fastforce simp: registry_inv_def members_allocated_def newChannel_def Let_def
        split: if_splits)
  moreover have "symmetric s'"
  proof -
    have fresh: "next_channel s \<notin> user_channels (user_heap s u)" for u
      using assms(1) by (fastforce simp: registry_inv_def symmetric_def members_allocated_def)
    have empty: "channel_users (channel_heap s (next_channel s)) = {}"
      using assms(1) by (fastforce simp: registry_inv_def members_allocated_def)
    from assms(1) have "symmetric s"
      by (simp add: registry_inv_def)
    with assms(2) fresh show ?thesis
      by (auto simp: symmetric_def newChannel_def Let_def split: if_splits)
  qed
  ultimately show ?thesis
    by (simp add: registry_inv_def)
qed

lemma recycleChannel_inv:
  assumes "registry_inv s"
  shows "registry_inv (recycleChannel s ch)"
  using assms
  by (auto simp: registry_inv_def names_lowercase_def directory_keyed_def symmetric_def
      members_allocated_def recycleChannel_def split: option.splits if_splits)

lemma joinChannel_inv:
  assumes "registry_inv s" and "allocated_channel s ch" and "allocated_user s us"
    and "joinChannel s ch us = Inr s'"
  shows "registry_inv s'"
proof -
  from assms(4) obtain c u where cu: "ch = Some c" "us = Some u"
    by (auto simp: joinChannel_def split: option.splits)
  have "names_lowercase s'"
    using assms cu by (auto simp: registry_inv_def names_lowercase_def joinChannel_def Let_def
        split: if_splits)
  moreover have "directory_keyed s'"
    using assms cu by (auto simp: registry_inv_def directory_keyed_def joinChannel_def Let_def
        split: if_splits)
  moreover have "members_allocated s'"
    using assms cu by (auto simp: registry_inv_def members_allocated_def joinChannel_def Let_def
        allocated_channel_def allocated_user_def split: if_splits)
  moreover have "symmetric s'"
    using assms cu by (auto simp: registry_inv_def symmetric_def joinChannel_def Let_def
        split: if_splits)
  ultimately show ?thesis
    by (simp add: registry_inv_def)
qed

lemma removeFromChannel_inv:
  assumes "registry_inv s" and "removeFromChannel s ch us = Inr s'"
  shows "registry_inv s'"
proof -
  from assms(2) obtain c u where cu: "ch = Some c" "us = Some u"
    by (auto simp: removeFromChannel_def split: option.splits)
  have "names_lowercase s'"
    using assms cu by (auto simp: registry_inv_def names_lowercase_def removeFromChannel_def
        recycleChannel_def Let_def split: if_splits)
  moreover have "directory_keyed s'"
    using assms cu by (auto simp: registry_inv_def directory_keyed_def removeFromChannel_def
        recycleChannel_def Let_def split: if_splits)
  moreover have "members_allocated s'"
    using assms cu by (auto simp: registry_inv_def members_allocated_def removeFromChannel_def
        recycleChannel_def Let_def split: if_splits)
  moreover have "symmetric s'"
    using assms cu by (auto simp: registry_inv_def symmetric_def removeFromChannel_def
        recycleChannel_def Let_def split: if_splits)
  ultimately show ?thesis
    by (simp add: registry_inv_def)
qed

lemma removeFromChannel_shrinks:
  assumes "registry_inv s" and "removeFromChannel s ch us = Inr s'"
  shows "shrinks s s'"
proof -
  from assms(2) obtain c u where cu: "ch = Some c" "us = Some u"
    by (auto simp: removeFromChannel_def split: option.splits)
  have "emptied_gone s s'"
    using assms cu by (auto simp: registry_inv_def directory_keyed_def emptied_gone_def
        removeFromChannel_def recycleChannel_def Let_def split: if_splits)
  moreover have "\<forall>k c. channels s' k = Some c \<longrightarrow> channels s k = Some c"
    using assms cu by (auto simp: removeFromChannel_def recycleChannel_def Let_def split: if_splits)
  moreover have "\<forall>c. channel_users (channel_heap s' c) \<subseteq> channel_users (channel_heap s c)"
    using assms cu by (auto simp: removeFromChannel_def recycleChannel_def Let_def split: if_splits)
  moreover have "\<forall>c. name (channel_heap s' c) = name (channel_heap s c)"
    using assms cu by (auto simp: removeFromChannel_def recycleChannel_def Let_def split: if_splits)
  moreover have "next_channel s' = next_channel s \<and> next_user s' = next_user s"
    using assms cu by (auto simp: removeFromChannel_def recycleChannel_def Let_def split: if_splits)
  ultimately show ?thesis
    by (simp add: shrinks_def)
qed

lemma shrinks_refl: "shrinks s s"
  by (simp add: shrinks_def emptied_gone_def)

lemma shrinks_trans:
  assumes "shrinks s s1" and "shrinks s1 s2"
  shows "shrinks s s2"
proof -
  have "emptied_gone s s2"
    unfolding emptied_gone_def
  proof (intro allI impI)
    fix c
    assume c: "channel_users (channel_heap s c) \<noteq> {} \<and> channel_users (channel_heap s2 c) = {}"
    show "channels s2 (name (channel_heap s2 c)) = None"
    proof (cases "channel_users (channel_heap s1 c) = {}")
      case True
      with c assms(1) have "channels s1 (name (channel_heap s1 c)) = None"
        unfolding shrinks_def emptied_gone_def by blast
      moreover from assms(2) have "name (channel_heap s2 c) = name (channel_heap s1 c)"
        by (simp add: shrinks_def)
      ultimately show ?thesis
        using assms(2) unfolding shrinks_def by (metis not_Some_eq)
    next
      case False
      with c assms(2) show ?thesis
        unfolding shrinks_def emptied_gone_def by blast
    qed
  qed
  moreover have "\<forall>c. channel_users (channel_heap s2 c) \<subseteq> channel_users (channel_heap s c)"
    using assms unfolding shrinks_def by (meson subset_trans)
  ultimately show ?thesis
    using assms by (simp add: shrinks_def)
qed

lemma partAll_inv_shrinks:
  assumes "registry_inv s" and "partAll s u cs = Inr s'"
  shows "registry_inv s' \<and> shrinks s s'"
  using assms
proof (induction cs arbitrary: s)
  case Nil
  then show ?case by (simp add: shrinks_refl)
next
  case (Cons c cs)
  from Cons.prems(2) obtain s1 where
    s1: "removeFromChannel s (Some c) (Some u) = Inr s1" and rest: "partAll s1 u cs = Inr s'"
    by (auto simp: partChannel_def split: sum.splits)
  from Cons.prems(1) s1 have "registry_inv s1" and "shrinks s s1"
    by (rule removeFromChannel_inv, rule removeFromChannel_shrinks)
  moreover from \<open>registry_inv s1\<close> rest have "registry_inv s' \<and> shrinks s1 s'"
    by (rule Cons.IH)
  ultimately show ?case
    using shrinks_trans by blast
qed

lemma registry_inv_users_update:
  "registry_inv (s\<lparr>users := d\<rparr>) = registry_inv s"
  by (simp add: registry_inv_def names_lowercase_def directory_keyed_def symmetric_def
      members_allocated_def)

lemma shrinks_users_update:
  "shrinks s (s1\<lparr>users := d\<rparr>) = shrinks s s1"
  by (simp add: shrinks_def emptied_gone_def)

lemma removeUser_inv_shrinks:
  assumes "registry_inv s" and "removeUser s us = Inr s'"
  shows "registry_inv s' \<and> shrinks s s'"
proof -
  from assms(2) obtain u s1 where
    s1: "partAll s u (sorted_list_of_set (user_channels (user_heap s u))) = Inr s1"
    and s': "s' = s1\<lparr>users := (users s1)(lowercase (nick (user_heap s1 u)) := None)\<rparr>"
    by (auto simp: removeUser_def Let_def split: option.splits sum.splits)
  from assms(1) s1 have "registry_inv s1 \<and> shrinks s s1"
    by (rule partAll_inv_shrinks)
  then show ?thesis
    unfolding s' by (simp only: registry_inv_users_update shrinks_users_update)
qed

lemma recycleChannel_shrinks:
  assumes "registry_inv s"
  shows "shrinks s (recycleChannel s ch)"
  using assms
  by (auto simp: shrinks_def emptied_gone_def recycleChannel_def split: option.splits)

lemma registry_step_inv:
  assumes "registry_step s s'" and "registry_inv s"
  shows "registry_inv s'"
  using assms
proof (cases rule: registry_step.cases)
  case (step_newUser nk)
  with assms(2) show ?thesis by (simp add: newUser_inv)
next
  case (step_newChannel nm r)
  with assms(2) show ?thesis by (blast intro: newChannel_inv)
next
  case (step_recycleChannel ch)
  with assms(2) show ?thesis by (simp add: recycleChannel_inv)
next
  case (step_joinChannel ch us)
  with assms(2) show ?thesis by (blast intro: joinChannel_inv)
next
  case (step_partChannel ch us reason)
  with assms(2) show ?thesis by (auto simp: partChannel_def intro: removeFromChannel_inv)
next
  case (step_removeFromChannel ch us)
  with assms(2) show ?thesis by (blast intro: removeFromChannel_inv)
next
  case (step_removeUser us)
  with assms(2) show ?thesis using removeUser_inv_shrinks by blast
qed

lemma reachable_inv: "reachable s \<Longrightarrow> registry_inv s"
proof (induction rule: reachable.induct)
  case reach_newState
  show ?case by (rule registry_inv_newState)
next
  case (reach_step s s')
  then show ?case by (simp add: registry_step_inv)
next
  case (reach_sink s u x)
  then show ?case
    by (simp add: registry_inv_def names_lowercase_def directory_keyed_def symmetric_def
        members_allocated_def)
next
  case (reach_username s u y)
  then show ?case
    by (simp add: registry_inv_def names_lowercase_def directory_keyed_def symmetric_def
        members_allocated_def)
qed

lemma registry_step_emptied:
  assumes "registry_step s s'" and "registry_inv s"
  shows "emptied_gone s s'"
  using assms
proof (cases rule: registry_step.cases)
  case (step_newUser nk)
  then show ?thesis
    by (simp add: emptied_gone_def newUser_def Let_def)
next
  case (step_newChannel nm r)
  have "channel_users (channel_heap s (next_channel s)) = {}"
    using assms(2) by (fastforce simp: registry_inv_def members_allocated_def)
  with step_newChannel show ?thesis
    by (auto simp: emptied_gone_def newChannel_def Let_def split: if_splits)
next
  case (step_recycleChannel ch)
  with assms(2) show ?thesis
    using recycleChannel_shrinks by (simp add: shrinks_def)
next
  case (step_joinChannel ch us)
  then show ?thesis
    by (auto simp: emptied_gone_def joinChannel_def Let_def split: option.splits if_splits)
next
  case (step_partChannel ch us reason)
  with assms(2) show ?thesis
    using removeFromChannel_shrinks by (simp add: shrinks_def partChannel_def)
next
  case (step_removeFromChannel ch us)
  with assms(2) show ?thesis
    using removeFromChannel_shrinks by (simp add: shrinks_def)
next
  case (step_removeUser us)
  with assms(2) show ?thesis
    using removeUser_inv_shrinks by (simp add: shrinks_def)
qed

lemma partChannel_last_member:
  assumes "channel_users (channel_heap s c) = {u}"
  shows "\<exists>s1. partChannel s (Some c) (Some u) reason = Inr s1
              \<and> channel_users (channel_heap s1 c) = {}
              \<and> channels s1 (name (channel_heap s c)) = None"
  using assms
  by (simp add: partChannel_def removeFromChannel_def recycleChannel_def Let_def)

text \<open>
  C4: in every state the registry can reach, when a channel has exactly one member,
  \<open>partChannel\<close> for that member returns, leaves the channel without members, and
  \<open>getChannel\<close> of the channel's name then returns nil; and whenever one registry
  operation takes a channel from some members to none, \<open>getChannel\<close> of its name returns
  nil and the channel is under no key of the directory when the operation returns.
\<close>

theorem emptied_channel_recycled:
  assumes "reachable s"
  shows "(channel_users (channel_heap s c) = {u} \<longrightarrow>
            (\<exists>s1. partChannel s (Some c) (Some u) reason = Inr s1
                  \<and> channel_users (channel_heap s1 c) = {}
                  \<and> getChannel s1 (name (channel_heap s c)) = None))
         \<and> (registry_step s s' \<and> channel_users (channel_heap s c) \<noteq> {}
              \<and> channel_users (channel_heap s' c) = {} \<longrightarrow>
                getChannel s' (name (channel_heap s' c)) = None
                \<and> (\<forall>k. channels s' k \<noteq> Some c))"
proof (intro conjI impI)
  from assms have inv: "registry_inv s"
    by (rule reachable_inv)
  then have low: "lowercase (name (channel_heap s c)) = name (channel_heap s c)"
    by (simp add: registry_inv_def names_lowercase_def)
  {
    assume "channel_users (channel_heap s c) = {u}"
    then show "\<exists>s1. partChannel s (Some c) (Some u) reason = Inr s1
                  \<and> channel_users (channel_heap s1 c) = {}
                  \<and> getChannel s1 (name (channel_heap s c)) = None"
      using partChannel_last_member [of s c u reason] low by (simp add: getChannel_def)
  }
  {
    assume step: "registry_step s s' \<and> channel_users (channel_heap s c) \<noteq> {}
              \<and> channel_users (channel_heap s' c) = {}"
    with inv have inv': "registry_inv s'"
      using registry_step_inv by blast
    from step inv have gone: "channels s' (name (channel_heap s' c)) = None"
      using registry_step_emptied unfolding emptied_gone_def by blast
    from inv' have "lowercase (name (channel_heap s' c)) = name (channel_heap s' c)"
      by (simp add: registry_inv_def names_lowercase_def)
    with gone show "getChannel s' (name (channel_heap s' c)) = None"
      by (simp add: getChannel_def)
    from inv' gone show "\<forall>k. channels s' k \<noteq> Some c"
      by (fastforce simp: registry_inv_def directory_keyed_def)
  }
qed

text \<open>
  C5: in every state the registry can reach, a user is in a channel's member set exactly
  when the channel is in the user's membership set, and each registry operation
  (\<open>newUser\<close>, \<open>newChannel\<close>, \<open>joinChannel\<close>, \<open>partChannel\<close>, \<open>removeFromChannel\<close>,
  \<open>removeUser\<close>, \<open>recycleChannel\<close>) leads to a state where this holds again.
\<close>

theorem membership_symmetric:
  assumes "reachable s"
  shows "(u \<in> channel_users (channel_heap s c) \<longleftrightarrow> c \<in> user_channels (user_heap s u))
         \<and> (\<forall>s'. registry_step s s' \<longrightarrow> symmetric s')"
proof
  from assms have inv: "registry_inv s"
    by (rule reachable_inv)
  then show "u \<in> channel_users (channel_heap s c) \<longleftrightarrow> c \<in> user_channels (user_heap s u)"
    by (simp add: registry_inv_def symmetric_def)
  from inv show "\<forall>s'. registry_step s s' \<longrightarrow> symmetric s'"
    using registry_step_inv by (auto simp: registry_inv_def)
qed

section \<open>The order of visit in removeUser\<close>

text \<open>
  Parting from two channels commutes, so the loop of \<open>removeUser\<close> gives the same
  state for every order in which Go may range over the membership map.
\<close>

lemma partChannel_part_one:
  "partChannel s (Some c) (Some u) ''QUITing'' = Inr (part_one u c s)"
  by (simp add: part_one_def partChannel_def removeFromChannel_def Let_def)

lemma partAll_fold: "partAll s u cs = Inr (fold (part_one u) cs s)"
  by (induction cs arbitrary: s) (simp_all add: partChannel_part_one)

lemma part_one_user_heap:
  "user_heap (part_one u c s) u' =
     (if u' = u then (user_heap s u)\<lparr>user_channels := user_channels (user_heap s u) - {c}\<rparr>
      else user_heap s u')"
  by (simp add: part_one_def partChannel_def removeFromChannel_def recycleChannel_def Let_def)

lemma part_one_channel_heap:
  "channel_heap (part_one u c s) c' =
     (if c' = c then (channel_heap s c)\<lparr>channel_users := channel_users (channel_heap s c) - {u}\<rparr>
      else channel_heap s c')"
  by (simp add: part_one_def partChannel_def removeFromChannel_def recycleChannel_def Let_def)

lemma part_one_channels:
  "channels (part_one u c s) k =
     (if channel_users (channel_heap s c) = {u} \<and> k = name (channel_heap s c) then None
      else channels s k)"
  by (auto simp: part_one_def partChannel_def removeFromChannel_def recycleChannel_def Let_def)

lemma part_one_rest:
  "users (part_one u c s) = users s"
  "next_channel (part_one u c s) = next_channel s"
  "next_user (part_one u c s) = next_user s"
  by (simp_all add: part_one_def partChannel_def removeFromChannel_def recycleChannel_def Let_def)


lemma part_one_commute: "part_one u c1 (part_one u c2 s) = part_one u c2 (part_one u c1 s)"
proof (cases "c1 = c2")
  case True
  then show ?thesis by simp
next
  case False
  show ?thesis
  proof (rule stateImpl.equality)
    show "channels (part_one u c1 (part_one u c2 s)) = channels (part_one u c2 (part_one u c1 s))"
    proof (rule ext)
      fix k
      from False show "channels (part_one u c1 (part_one u c2 s)) k = channels (part_one u c2 (part_one u c1 s)) k"
        by (simp add: part_one_channels part_one_channel_heap)
    qed
    show "channel_heap (part_one u c1 (part_one u c2 s)) = channel_heap (part_one u c2 (part_one u c1 s))"
    proof (rule ext)
      fix c
      from False show "channel_heap (part_one u c1 (part_one u c2 s)) c = channel_heap (part_one u c2 (part_one u c1 s)) c"
        by (simp add: part_one_channel_heap)
    qed
    show "user_heap (part_one u c1 (part_one u c2 s)) = user_heap (part_one u c2 (part_one u c1 s))"
    proof (rule ext)
      fix v
      have "user_channels (user_heap s u) - {c2} - {c1} = user_channels (user_heap s u) - {c1} - {c2}"
        by blast
      then show "user_heap (part_one u c1 (part_one u c2 s)) v = user_heap (part_one u c2 (part_one u c1 s)) v"
        by (simp add: part_one_user_heap)
    qed
    show "users (part_one u c1 (part_one u c2 s)) = users (part_one u c2 (part_one u c1 s))"
      by (simp add: part_one_rest)
    show "next_channel (part_one u c1 (part_one u c2 s)) = next_channel (part_one u c2 (part_one u c1 s))"
      by (simp add: part_one_rest)
    show "next_user (part_one u c1 (part_one u c2 s)) = next_user (part_one u c2 (part_one u c1 s))"
      by (simp add: part_one_rest)
    show "stateImpl.more (part_one u c1 (part_one u c2 s)) = stateImpl.more (part_one u c2 (part_one u c1 s))"
      by simp
  qed
qed

lemma partAll_order:
  assumes "distinct cs" and "distinct ds" and "set cs = set ds"
  shows "partAll s u cs = partAll s u ds"
proof -
  from assms have eq: "mset cs = mset ds"
    using set_eq_iff_mset_eq_distinct by blast
  have comm: "part_one u x \<circ> part_one u y = part_one u y \<circ> part_one u x" for x y
    by (rule ext) (simp only: comp_apply part_one_commute)
  have "fold (part_one u) cs = fold (part_one u) ds"
    by (rule fold_multiset_equiv) (rule comm, rule eq)
  then show ?thesis
    by (simp only: partAll_fold)
qed

lemma removeUser_order:
  assumes "distinct cs" and "set cs = user_channels (user_heap s u)"
  shows "removeUser s (Some u) =
           (case partAll s u cs of
              Inl e \<Rightarrow> Inl e
            | Inr s1 \<Rightarrow> Inr (s1\<lparr>users := (users s1)(lowercase (nick (user_heap s1 u)) := None)\<rparr>))"
proof -
  define ds where "ds = sorted_list_of_set (user_channels (user_heap s u))"
  from assms(2) have "finite (user_channels (user_heap s u))"
    by (metis List.finite_set)
  then have "distinct ds" and "set ds = set cs"
    using assms(2) by (simp_all add: ds_def)
  with assms(1) have "partAll s u ds = partAll s u cs"
    using partAll_order by blast
  then have "fold (part_one u) ds s = fold (part_one u) cs s"
    by (simp add: partAll_fold)
  then show ?thesis
    by (simp add: removeUser_def Let_def partAll_fold flip: ds_def)
qed

section \<open>The scenario states\<close>

lemma lowercase_go: "lowercase ''#go'' = ''#go''" by code_simp

lemma registry_alice_fields:
  "next_user registry_alice = 1" "next_channel registry_alice = 0"
  "channels registry_alice = Map.empty"
  "user_channels (user_heap registry_alice 0) = {}"
  by (simp_all add: registry_alice_def newUser_def newState_def isValidNick_def lowercase_alice Let_def)

lemma newChannel_go:
  "newChannel registry_alice ''#go'' = Inr (Some 0, registry_go)"
  by (simp add: registry_go_def newChannel_def registry_alice_fields lowercase_go Let_def)

lemma registry_go_fields:
  "next_user registry_go = 1" "next_channel registry_go = 1"
  "channel_users (channel_heap registry_go 0) = {}"
  "name (channel_heap registry_go 0) = ''#go''"
  "user_channels (user_heap registry_go 0) = {}"
  by (simp_all add: registry_go_def newChannel_def registry_alice_fields lowercase_go Let_def)

lemma joinChannel_go:
  "joinChannel registry_go (Some 0) (Some 0) = Inr registry_joined"
  by (simp add: registry_joined_def joinChannel_def registry_go_fields Let_def)

lemma registry_joined_fields:
  "next_user registry_joined = 1" "next_channel registry_joined = 1"
  "channel_users (channel_heap registry_joined 0) = {0}"
  "user_channels (user_heap registry_joined 0) = {0}"
  "name (channel_heap registry_joined 0) = ''#go''"
  by (simp_all add: registry_joined_def joinChannel_def registry_go_fields Let_def)

lemma partChannel_go:
  "partChannel registry_joined (Some 0) (Some 0) ''bye'' = Inr registry_parted"
  by (simp add: registry_parted_def partChannel_def removeFromChannel_def Let_def)

lemma registry_parted_fields:
  "channel_users (channel_heap registry_parted 0) = {}"
  "user_channels (user_heap registry_parted 0) = {}"
  "name (channel_heap registry_parted 0) = ''#go''"
  "channels registry_parted ''#go'' = None"
  by (simp_all add: registry_parted_def partChannel_def removeFromChannel_def recycleChannel_def
      registry_joined_fields Let_def)

lemma reachable_registry_joined: "reachable registry_joined"
proof -
  have "reachable registry_alice"
    unfolding registry_alice_def by (rule reach_step [OF reach_newState step_newUser])
  then have "reachable registry_go"
    using newChannel_go by (blast intro: reach_step step_newChannel)
  moreover have "registry_step registry_go registry_joined"
    using joinChannel_go
    by (rule step_joinChannel [rotated 2])
      (simp_all add: allocated_channel_def allocated_user_def registry_go_fields)
  ultimately show ?thesis
    by (rule reach_step)
qed

lemma step_registry_parted: "registry_step registry_joined registry_parted"
  using partChannel_go
  by (rule step_partChannel [rotated 2])
    (simp_all add: allocated_channel_def allocated_user_def registry_joined_fields)

theorem emptied_channel_recycled_witness:
  "reachable registry_joined
   \<and> channel_users (channel_heap registry_joined 0) = {0}
   \<and> partChannel registry_joined (Some 0) (Some 0) ''bye'' = Inr registry_parted
   \<and> registry_step registry_joined registry_parted
   \<and> channel_users (channel_heap registry_joined 0) \<noteq> {}
   \<and> channel_users (channel_heap registry_parted 0) = {}
   \<and> name (channel_heap registry_parted 0) = ''#go''
   \<and> getChannel registry_parted ''#go'' = None
   \<and> channels registry_parted ''#go'' \<noteq> Some 0"
  using emptied_channel_recycled [OF reachable_registry_joined, of 0 0 "''bye''" registry_parted]
    reachable_registry_joined step_registry_parted partChannel_go
  by (simp add: registry_joined_fields registry_parted_fields)

theorem membership_symmetric_witness:
  "reachable registry_joined
   \<and> 0 \<in> channel_users (channel_heap registry_joined 0)
   \<and> 0 \<in> user_channels (user_heap registry_joined 0)
   \<and> registry_step registry_joined registry_parted
   \<and> symmetric registry_parted"
  using membership_symmetric [OF reachable_registry_joined, of 0 0]
    reachable_registry_joined step_registry_parted
  by (simp add: registry_joined_fields)

theorem joinChannel_idempotent_witness:
  "joinChannel registry_go (Some 0) (Some 0) = Inr registry_joined
   \<and> 0 \<in> channel_users (channel_heap registry_joined 0)
   \<and> joinChannel registry_joined (Some 0) (Some 0) = Inr registry_joined"
  using joinChannel_idempotent [where s = registry_go and ch = "Some 0" and us = "Some 0"]
    joinChannel_go
  by (simp add: registry_joined_fields)

end
